theory Spec2Isabelle
  imports Complex_Main "HOL-Library.Word" "HOL-Library.AList"
begin

section \<open>SniperProfiling: a shallow embedding of SniperProfiling.cc\<close>

text \<open>
  The service times every event and every algorithm of a task through four incident
  handlers and prints a table when it is finalized. The embedding follows
  \<^verbatim>\<open>SniperProfiling.cc\<close> statement by statement. Everything the C++ does beyond
  returning a value is explicit: the session's members are a record, timers live in a
  store of addresses (handlers and the session share them through pointers), a raised
  exception and the dereference of a null pointer are results of their own.

  Durations and the statistics derived from them are \<open>double\<close>s in the program; they
  are idealised here as real numbers, so rounding is not part of the model.
\<close>

subsection \<open>Strings: \<^verbatim>\<open>std::string::find\<close> and \<^verbatim>\<open>std::string::substr\<close>\<close>

type_synonym size_t = "64 word"

definition npos :: size_t where
  "npos = - 1"

text \<open>
  \<^verbatim>\<open>s.find(c)\<close>: the index of the first occurrence of \<open>c\<close>, or \<open>npos\<close>. The
  scan carries the index of the character it looks at.
\<close>

fun find_from :: "string \<Rightarrow> char \<Rightarrow> nat \<Rightarrow> size_t" where
  "find_from [] c i = npos"
| "find_from (x # xs) c i = (if x = c then of_nat i else find_from xs c (Suc i))"

definition find_char :: "string \<Rightarrow> char \<Rightarrow> size_t" where
  "find_char s c = find_from s c 0"

definition size_of :: "string \<Rightarrow> size_t" where
  "size_of s = of_nat (length s)"

text \<open>
  What can be raised. The first five are the error kinds that the spec names; of these the
  model raises \<open>ConfigurationError\<close> (in the accessors of the configuration) and the two
  errors of a timer used out of order, as the spec describes those classes. Nothing in
  \<^verbatim>\<open>SniperProfiling.cc\<close> raises by itself. The last three are the exceptions of the
  library and of the collaborators.
\<close>

datatype error =
    ConfigurationError
  | UnknownAlgorithmError
  | AlreadyRunningError
  | NotRunningError
  | PayloadTypeMismatchError
  | OutOfRange
  | RegistrationFailure
  | StreamFailure

text \<open>
  \<^verbatim>\<open>s.substr(pos, n)\<close> raises \<^verbatim>\<open>std::out_of_range\<close> when \<open>pos > s.size()\<close> and
  otherwise returns at most \<open>n\<close> characters from \<open>pos\<close> on.
\<close>

definition substr :: "string \<Rightarrow> size_t \<Rightarrow> size_t \<Rightarrow> error + string" where
  "substr s pos n =
     (if length s < unat pos then Inl OutOfRange
      else Inr (take (unat n) (drop (unat pos) s)))"

text \<open>
  Line 143 of the source:
  \<^verbatim>\<open>algName = idtf.substr(idtf.find('/') + 1, idtf.size())\<close>.
  The addition is the unsigned one of \<open>size_t\<close>, so \<open>npos + 1\<close> wraps to 0.
\<close>

definition algName_of :: "string \<Rightarrow> error + string" where
  "algName_of idtf = substr idtf (find_char idtf CHR ''/'' + 1) (size_of idtf)"

text \<open>The two readings of "the name part" that the extraction is compared with.\<close>

definition after_first_slash :: "string \<Rightarrow> string" where
  "after_first_slash s = drop 1 (dropWhile (\<lambda>x. x \<noteq> CHR ''/'') s)"


subsection \<open>SniperTimer\<close>

text \<open>
  Modelled from the spec: the class \<^verbatim>\<open>SniperTimer\<close> (its header and implementation
  are not among the sources). The spec's Timer has a running flag, the start instant,
  and the accumulators count, sum and sum of squares; \<open>start\<close> fails with
  \<open>AlreadyRunningError\<close> on a running timer, \<open>stop\<close> fails with \<open>NotRunningError\<close> on
  a timer that is not running and otherwise adds the elapsed time to the accumulators;
  \<open>mean\<close> and \<open>rms\<close> are 0 when nothing was measured. The clock is read by the timer;
  the model gets the reading as the argument \<open>now\<close> (milliseconds).
\<close>

record SniperTimer =
  t_name :: string
  t_running :: bool
  t_started_at :: "real option"
  t_count :: nat
  t_sum :: real
  t_sum_of_squares :: real
  t_elapsed :: real

definition new_SniperTimer :: "string \<Rightarrow> SniperTimer" where
  "new_SniperTimer nm =
     \<lparr>t_name = nm, t_running = False, t_started_at = None, t_count = 0,
      t_sum = 0, t_sum_of_squares = 0, t_elapsed = 0\<rparr>"

definition start :: "real \<Rightarrow> SniperTimer \<Rightarrow> error + SniperTimer" where
  "start now t =
     (if t_running t then Inl AlreadyRunningError
      else Inr (t\<lparr>t_running := True, t_started_at := Some now\<rparr>))"

definition stop :: "real \<Rightarrow> SniperTimer \<Rightarrow> error + SniperTimer" where
  "stop now t =
     (if \<not> t_running t then Inl NotRunningError
      else case t_started_at t of
          None \<Rightarrow> Inl NotRunningError
        | Some t0 \<Rightarrow>
            Inr (t\<lparr>t_running := False, t_started_at := None,
                   t_count := t_count t + 1,
                   t_sum := t_sum t + (now - t0),
                   t_sum_of_squares := t_sum_of_squares t + (now - t0) * (now - t0),
                   t_elapsed := now - t0\<rparr>))"

definition elapsed :: "SniperTimer \<Rightarrow> real" where
  "elapsed t = t_elapsed t"

definition number_of_measurements :: "SniperTimer \<Rightarrow> nat" where
  "number_of_measurements t = t_count t"

definition mean :: "SniperTimer \<Rightarrow> real" where
  "mean t = (if t_count t = 0 then 0 else t_sum t / real (t_count t))"

definition rms :: "SniperTimer \<Rightarrow> real" where
  "rms t = (if t_count t = 0 then 0 else sqrt (t_sum_of_squares t / real (t_count t)))"

text \<open>
  A sequence of matched start/stop pairs on one timer: each pair is the clock reading at
  \<open>start\<close> and the reading at \<open>stop\<close>. The first failing call ends the sequence.
\<close>

fun measure_all :: "(real \<times> real) list \<Rightarrow> SniperTimer \<Rightarrow> error + SniperTimer" where
  "measure_all [] t = Inr t"
| "measure_all ((t0, t1) # ps) t =
     (case start t0 t of
        Inl e \<Rightarrow> Inl e
      | Inr t' \<Rightarrow> (case stop t1 t' of Inl e \<Rightarrow> Inl e | Inr t'' \<Rightarrow> measure_all ps t''))"

definition durations :: "(real \<times> real) list \<Rightarrow> real list" where
  "durations ps = map (\<lambda>(t0, t1). t1 - t0) ps"

subsection \<open>The configuration: \<^verbatim>\<open>SniperJSON\<close>\<close>

datatype SniperJSON =
    JString string
  | JVector "SniperJSON list"
  | JMap "(string \<times> SniperJSON) list"
  | JNull

text \<open>
  Modelled from the spec: the accessors of \<^verbatim>\<open>SniperJSON\<close> (the class is not among the
  sources). The spec asks for an ordered list under a fixed field name whose entries each
  hold an identifier string, and calls an absent or malformed field a
  \<open>ConfigurationError\<close>. \<open>json_at\<close> is \<^verbatim>\<open>operator[]\<close> with a key, \<open>json_vec\<close> the
  range \<^verbatim>\<open>vec_begin() .. vec_end()\<close>, \<open>json_get_string\<close> is
  \<^verbatim>\<open>get<std::string>()\<close>.
\<close>

definition json_at :: "SniperJSON \<Rightarrow> string \<Rightarrow> error + SniperJSON" where
  "json_at j k =
     (case j of
        JMap kvs \<Rightarrow> (case map_of kvs k of None \<Rightarrow> Inl ConfigurationError | Some v \<Rightarrow> Inr v)
      | _ \<Rightarrow> Inl ConfigurationError)"

definition json_vec :: "SniperJSON \<Rightarrow> error + SniperJSON list" where
  "json_vec j = (case j of JVector vs \<Rightarrow> Inr vs | _ \<Rightarrow> Inl ConfigurationError)"

definition json_get_string :: "SniperJSON \<Rightarrow> error + string" where
  "json_get_string j = (case j of JString x \<Rightarrow> Inr x | _ \<Rightarrow> Inl ConfigurationError)"

subsection \<open>The session: members, store, host and log\<close>

type_synonym addr = nat

text \<open>A \<^verbatim>\<open>SniperTimer*\<close>: \<open>None\<close> is the null pointer.\<close>

type_synonym ptr = "addr option"

text \<open>
  A pointer to a handler. No one but the session holds the handler's state, so the
  object is kept in the pointer; \<^verbatim>\<open>delete\<close> leaves the pointer dangling.
\<close>

datatype 'a ref = Null | Object 'a | Deleted

datatype hdl = BeginEvtHdl | EndEvtHdl | BeginAlgHdl | EndAlgHdl

text \<open>
  The event handlers keep their own copy of the pointer to the event timer. The
  algorithm handlers keep a reference to the session's map \<open>m_algTimer\<close>; they read
  and write the session's member, so their record has no field for it.
\<close>

record EvtHandler =
  e_name :: string
  e_logLevel :: int
  h_evtTimer :: ptr

record AlgHandler =
  a_name :: string
  a_logLevel :: int

text \<open>
  The parent \<open>m_par\<close> is an \<^verbatim>\<open>ExecUnit*\<close>; only a \<^verbatim>\<open>Task\<close> has the
  configuration that \<open>initialize\<close> reads.
\<close>

datatype ExecUnit = Task string SniperJSON | OtherUnit string

fun objName :: "ExecUnit \<Rightarrow> string" where
  "objName (Task nm j) = nm"
| "objName (OtherUnit nm) = nm"

text \<open>
  What the session writes: the lines of the report on \<^verbatim>\<open>*SniperLog::LogStream\<close> (one
  per output statement; the columns of a row are kept as values, their fixed-width
  rendering is not modelled), the messages of \<^verbatim>\<open>LogInfo\<close> and \<^verbatim>\<open>LogDebug\<close> (with
  the log level of the object that writes), and the calls of the log's lock.
\<close>

datatype report_line =
    Banner
  | Header
  | Row string nat real real real
  | SumRow string nat real real real
  | Closing

datatype event =
    Lock
  | Unlock
  | Put report_line
  | Info string
  | DebugEvt int real
  | DebugAlg int string real

record Session =
  m_par :: "ExecUnit option"
  m_description :: string
  logLevel :: int
  m_evtTimer :: ptr
  m_algName :: "string list"
  m_algTimer :: "(string \<times> ptr) list"
  m_beginEvtHdl :: "EvtHandler ref"
  m_endEvtHdl :: "EvtHandler ref"
  m_beginAlgHdl :: "AlgHandler ref"
  m_endAlgHdl :: "AlgHandler ref"
  heap :: "addr \<Rightarrow> SniperTimer option"
  next_addr :: addr
  registered :: "(string \<times> hdl) list"
  locked :: bool
  trace :: "event list"

text \<open>
  The session as its constructor leaves it, for a parent, a description and a log level:
  no timer, no handler, nothing registered, the lock free.
\<close>

definition new_Session :: "ExecUnit option \<Rightarrow> string \<Rightarrow> int \<Rightarrow> Session" where
  "new_Session par descr lvl =
     \<lparr>m_par = par, m_description = descr, logLevel = lvl, m_evtTimer = None,
      m_algName = [], m_algTimer = [],
      m_beginEvtHdl = Null, m_endEvtHdl = Null, m_beginAlgHdl = Null, m_endAlgHdl = Null,
      heap = (\<lambda>a. None), next_addr = 0, registered = [], locked = False, trace = []\<rparr>"

text \<open>
  How a call ends: it returns, it raises, or it dereferences a pointer that points to no
  object (undefined behaviour in C++, kept as a result of its own so that no theorem
  depends on what happens afterwards). Each carries the session at that moment.
\<close>

datatype fault = NullDereference | DanglingPointer

datatype 'a outcome = Returns 'a Session | Throws error Session | Fault fault Session

definition andThen :: "'a outcome \<Rightarrow> ('a \<Rightarrow> Session \<Rightarrow> 'b outcome) \<Rightarrow> 'b outcome" where
  "andThen m f =
     (case m of Returns a s \<Rightarrow> f a s | Throws e s \<Rightarrow> Throws e s | Fault x s \<Rightarrow> Fault x s)"

definition lift :: "error + 'a \<Rightarrow> Session \<Rightarrow> 'a outcome" where
  "lift r s = (case r of Inl e \<Rightarrow> Throws e s | Inr a \<Rightarrow> Returns a s)"

definition log :: "event \<Rightarrow> Session \<Rightarrow> unit outcome" where
  "log ev s = Returns () (s\<lparr>trace := trace s @ [ev]\<rparr>)"

subsection \<open>Collaborators that can fail\<close>

text \<open>
  Modelled from the spec: \<^verbatim>\<open>IIncidentHandler::regist\<close> and \<^verbatim>\<open>unregist\<close> (the class
  is not among the sources). The spec's dispatch mechanism registers and unregisters a
  handler under a notification name, registering can fail, and unregistering twice is
  harmless. Whether a registration fails is the host's business, so it is a parameter:
  \<open>regist_raises\<close> says for which notification names it does. In the same way
  \<open>put_raises\<close> says on which lines an insertion into \<^verbatim>\<open>*SniperLog::LogStream\<close>
  raises (a \<^verbatim>\<open>std::ostream\<close> does when its exception mask asks for it), and
  \<open>hdl_logLevel\<close> is the log level that the constructor of a handler sets.
\<close>

record Collaborators =
  regist_raises :: "string \<Rightarrow> bool"
  put_raises :: "report_line \<Rightarrow> bool"
  hdl_logLevel :: int

definition regist :: "Collaborators \<Rightarrow> string \<Rightarrow> hdl \<Rightarrow> Session \<Rightarrow> unit outcome" where
  "regist C nm h s =
     (if regist_raises C nm then Throws RegistrationFailure s
      else Returns () (s\<lparr>registered := registered s @ [(nm, h)]\<rparr>))"

definition unregist :: "string \<Rightarrow> hdl \<Rightarrow> Session \<Rightarrow> unit outcome" where
  "unregist nm h s = Returns () (s\<lparr>registered := removeAll (nm, h) (registered s)\<rparr>)"

definition put :: "Collaborators \<Rightarrow> report_line \<Rightarrow> Session \<Rightarrow> unit outcome" where
  "put C l s = (if put_raises C l then Throws StreamFailure s else log (Put l) s)"

text \<open>\<^verbatim>\<open>SniperLog::Logger::lock()\<close> and \<^verbatim>\<open>unlock()\<close>, seen from the one thread modelled.\<close>

definition lock :: "Session \<Rightarrow> unit outcome" where
  "lock s = Returns () (s\<lparr>locked := True, trace := trace s @ [Lock]\<rparr>)"

definition unlock :: "Session \<Rightarrow> unit outcome" where
  "unlock s = Returns () (s\<lparr>locked := False, trace := trace s @ [Unlock]\<rparr>)"

subsection \<open>Timers behind pointers\<close>

text \<open>\<^verbatim>\<open>new SniperTimer(nm)\<close>: the next free address of the store.\<close>

definition new_timer :: "string \<Rightarrow> Session \<Rightarrow> ptr outcome" where
  "new_timer nm s =
     Returns (Some (next_addr s))
       (s\<lparr>heap := (heap s)(next_addr s \<mapsto> new_SniperTimer nm),
          next_addr := Suc (next_addr s)\<rparr>)"

definition deref :: "ptr \<Rightarrow> Session \<Rightarrow> (addr \<times> SniperTimer) outcome" where
  "deref p s =
     (case p of
        None \<Rightarrow> Fault NullDereference s
      | Some a \<Rightarrow> (case heap s a of None \<Rightarrow> Fault DanglingPointer s | Some t \<Rightarrow> Returns (a, t) s))"

text \<open>\<^verbatim>\<open>p->start()\<close>, \<^verbatim>\<open>p->stop()\<close>, and reading the object for an accessor.\<close>

definition timer_start :: "real \<Rightarrow> ptr \<Rightarrow> Session \<Rightarrow> unit outcome" where
  "timer_start now p s =
     andThen (deref p s) (\<lambda>(a, t) s.
     andThen (lift (start now t) s) (\<lambda>t' s.
     Returns () (s\<lparr>heap := (heap s)(a \<mapsto> t')\<rparr>)))"

definition timer_stop :: "real \<Rightarrow> ptr \<Rightarrow> Session \<Rightarrow> unit outcome" where
  "timer_stop now p s =
     andThen (deref p s) (\<lambda>(a, t) s.
     andThen (lift (stop now t) s) (\<lambda>t' s.
     Returns () (s\<lparr>heap := (heap s)(a \<mapsto> t')\<rparr>)))"

definition timer_read :: "ptr \<Rightarrow> Session \<Rightarrow> SniperTimer outcome" where
  "timer_read p s = andThen (deref p s) (\<lambda>(a, t) s. Returns t s)"

text \<open>\<^verbatim>\<open>delete p\<close>: nothing for the null pointer, the object leaves the store otherwise.\<close>

definition delete_timer :: "ptr \<Rightarrow> Session \<Rightarrow> unit outcome" where
  "delete_timer p s =
     (case p of
        None \<Rightarrow> Returns () s
      | Some a \<Rightarrow>
          (case heap s a of
             None \<Rightarrow> Fault DanglingPointer s
           | Some t \<Rightarrow> Returns () (s\<lparr>heap := (heap s)(a := None)\<rparr>)))"

text \<open>
  \<^verbatim>\<open>m_algTimer[key]\<close> is \<^verbatim>\<open>std::map::operator[]\<close>: a key that is absent is inserted
  with a value-initialised mapped value, the null pointer, and then looked up.
\<close>

definition map_index :: "string \<Rightarrow> Session \<Rightarrow> ptr outcome" where
  "map_index key s =
     (case map_of (m_algTimer s) key of
        Some p \<Rightarrow> Returns p s
      | None \<Rightarrow> Returns None (s\<lparr>m_algTimer := AList.update key None (m_algTimer s)\<rparr>))"

subsection \<open>The four handlers\<close>

datatype AlgBase = AlgBase string

fun alg_objName :: "AlgBase \<Rightarrow> string" where
  "alg_objName (AlgBase nm) = nm"

text \<open>
  An incident as a handler gets it: a plain \<^verbatim>\<open>Incident\<close>, an
  \<^verbatim>\<open>Incident_T<AlgBase*>\<close> with its payload (a pointer, so possibly null), or an
  \<^verbatim>\<open>Incident_T\<close> of another payload type. The string is the incident's name.
\<close>

datatype Incident =
    Incident string
  | Incident_T_AlgBase string "AlgBase option"
  | Incident_T_other string

text \<open>
  Lines 94 to 96 and 119 to 121: the dynamic cast of the incident gives the null pointer
  for every incident that is no \<^verbatim>\<open>Incident_T<AlgBase*>\<close>; the result is dereferenced
  unchecked, and so is the payload.
\<close>

definition payload_key :: "Incident \<Rightarrow> Session \<Rightarrow> string outcome" where
  "payload_key incident s =
     (case incident of
        Incident_T_AlgBase nm algPtr \<Rightarrow>
          (case algPtr of
             None \<Rightarrow> Fault NullDereference s
           | Some alg \<Rightarrow> Returns (alg_objName alg) s)
      | _ \<Rightarrow> Fault NullDereference s)"

definition BeginEvtHandler_handle ::
    "EvtHandler \<Rightarrow> real \<Rightarrow> Incident \<Rightarrow> Session \<Rightarrow> bool outcome" where
  "BeginEvtHandler_handle this now incident s =
     andThen (timer_start now (h_evtTimer this) s) (\<lambda>_ s.
     Returns True s)"

definition EndEvtHandler_handle ::
    "EvtHandler \<Rightarrow> real \<Rightarrow> Incident \<Rightarrow> Session \<Rightarrow> bool outcome" where
  "EndEvtHandler_handle this now incident s =
     andThen (timer_stop now (h_evtTimer this) s) (\<lambda>_ s.
     andThen (timer_read (h_evtTimer this) s) (\<lambda>t s.
     andThen (log (DebugEvt (e_logLevel this) (elapsed t)) s) (\<lambda>_ s.
     Returns True s)))"

definition BeginAlgHandler_handle ::
    "AlgHandler \<Rightarrow> real \<Rightarrow> Incident \<Rightarrow> Session \<Rightarrow> bool outcome" where
  "BeginAlgHandler_handle this now incident s =
     andThen (payload_key incident s) (\<lambda>key s.
     andThen (map_index key s) (\<lambda>p s.
     andThen (timer_start now p s) (\<lambda>_ s.
     Returns True s)))"

definition EndAlgHandler_handle ::
    "AlgHandler \<Rightarrow> real \<Rightarrow> Incident \<Rightarrow> Session \<Rightarrow> bool outcome" where
  "EndAlgHandler_handle this now incident s =
     andThen (payload_key incident s) (\<lambda>key s.
     andThen (map_index key s) (\<lambda>p s.
     andThen (timer_stop now p s) (\<lambda>_ s.
     andThen (map_index key s) (\<lambda>q s.
     andThen (timer_read q s) (\<lambda>t s.
     andThen (log (DebugAlg (a_logLevel this) key (elapsed t)) s) (\<lambda>_ s.
     Returns True s))))))"

text \<open>
  The host calls a handler through the pointer it was given at registration; the object
  is the one the session's member points to.
\<close>

definition through :: "'a ref \<Rightarrow> ('a \<Rightarrow> Session \<Rightarrow> 'b outcome) \<Rightarrow> Session \<Rightarrow> 'b outcome" where
  "through r f s =
     (case r of
        Null \<Rightarrow> Fault NullDereference s
      | Deleted \<Rightarrow> Fault DanglingPointer s
      | Object this \<Rightarrow> f this s)"



subsection \<open>\<^verbatim>\<open>SniperProfiling::initialize\<close>\<close>

text \<open>
  Lines 132 and 133: the parent is cast to a \<^verbatim>\<open>Task*\<close> and dereferenced unchecked.
\<close>

definition task_json :: "Session \<Rightarrow> SniperJSON outcome" where
  "task_json s =
     (case m_par s of
        Some (Task nm j) \<Rightarrow> Returns j s
      | _ \<Rightarrow> Fault NullDereference s)"

text \<open>
  The body of the loop of lines 140 to 146, for one entry of the list: the identifier is
  read, the name is cut out of it, appended to \<open>m_algName\<close>, and a new timer is
  assigned to the map under that name (\<^verbatim>\<open>operator[]\<close> followed by an assignment: an
  entry that is there is overwritten, the timer it pointed to stays in the store).
\<close>

definition init_alg :: "SniperJSON \<Rightarrow> Session \<Rightarrow> unit outcome" where
  "init_alg it s =
     andThen (lift (json_at it ''identifier'') s) (\<lambda>j s.
     andThen (lift (json_get_string j) s) (\<lambda>idtf s.
     andThen (lift (algName_of idtf) s) (\<lambda>algName s.
     andThen (Returns () (s\<lparr>m_algName := m_algName s @ [algName]\<rparr>)) (\<lambda>_ s.
     andThen (new_timer algName s) (\<lambda>p s.
     Returns () (s\<lparr>m_algTimer := AList.update algName p (m_algTimer s)\<rparr>))))))"

fun init_algs :: "SniperJSON list \<Rightarrow> Session \<Rightarrow> unit outcome" where
  "init_algs [] s = Returns () s"
| "init_algs (it # rest) s =
     (case init_alg it s of
        Returns u s' \<Rightarrow> init_algs rest s'
      | Throws e s' \<Rightarrow> Throws e s'
      | Fault x s' \<Rightarrow> Fault x s')"

definition new_EvtHandler :: "Collaborators \<Rightarrow> string \<Rightarrow> ptr \<Rightarrow> EvtHandler" where
  "new_EvtHandler C nm evtTimer =
     \<lparr>e_name = nm, e_logLevel = hdl_logLevel C, h_evtTimer = evtTimer\<rparr>"

definition new_AlgHandler :: "Collaborators \<Rightarrow> string \<Rightarrow> AlgHandler" where
  "new_AlgHandler C nm = \<lparr>a_name = nm, a_logLevel = hdl_logLevel C\<rparr>"

text \<open>Lines 165 and 166: \<^verbatim>\<open>setLogLevel\<close> through the two pointers.\<close>

definition setLogLevel_endEvt :: "Session \<Rightarrow> unit outcome" where
  "setLogLevel_endEvt s =
     through (m_endEvtHdl s)
       (\<lambda>this s. Returns () (s\<lparr>m_endEvtHdl := Object (this\<lparr>e_logLevel := logLevel s\<rparr>)\<rparr>)) s"

definition setLogLevel_endAlg :: "Session \<Rightarrow> unit outcome" where
  "setLogLevel_endAlg s =
     through (m_endAlgHdl s)
       (\<lambda>this s. Returns () (s\<lparr>m_endAlgHdl := Object (this\<lparr>a_logLevel := logLevel s\<rparr>)\<rparr>)) s"

text \<open>
  Lines 132 to 146: the configuration is read, the event timer is made, the loop makes
  the timers of the algorithms.
\<close>

definition init_timers :: "Session \<Rightarrow> unit outcome" where
  "init_timers s =
     andThen (task_json s) (\<lambda>taskJson s.
     andThen (lift (json_at taskJson ''algorithms'') s) (\<lambda>algVec s.
     andThen (new_timer ''evtTimer'' s) (\<lambda>p s.
     andThen (Returns () (s\<lparr>m_evtTimer := p\<rparr>)) (\<lambda>_ s.
     andThen (lift (json_vec algVec) s) (\<lambda>its s.
     init_algs its s)))))"

text \<open>
  Lines 148 to 170: the four handlers are made and registered, one after the other, the
  log level goes to the two end handlers, and the function returns \<open>true\<close>.
\<close>

definition init_handlers :: "Collaborators \<Rightarrow> Session \<Rightarrow> bool outcome" where
  "init_handlers C s =
     andThen (Returns ()
       (s\<lparr>m_beginEvtHdl := Object (new_EvtHandler C ''BeginEvtHandler'' (m_evtTimer s))\<rparr>)) (\<lambda>_ s.
     andThen (regist C ''BeginEvent'' BeginEvtHdl s) (\<lambda>_ s.
     andThen (Returns ()
       (s\<lparr>m_endEvtHdl := Object (new_EvtHandler C ''EndEvtHandler'' (m_evtTimer s))\<rparr>)) (\<lambda>_ s.
     andThen (regist C ''EndEvent'' EndEvtHdl s) (\<lambda>_ s.
     andThen (Returns ()
       (s\<lparr>m_beginAlgHdl := Object (new_AlgHandler C ''BeginAlgHandler'')\<rparr>)) (\<lambda>_ s.
     andThen (regist C ''BeginAlg'' BeginAlgHdl s) (\<lambda>_ s.
     andThen (Returns ()
       (s\<lparr>m_endAlgHdl := Object (new_AlgHandler C ''EndAlgHandler'')\<rparr>)) (\<lambda>_ s.
     andThen (regist C ''EndAlg'' EndAlgHdl s) (\<lambda>_ s.
     andThen (setLogLevel_endEvt s) (\<lambda>_ s.
     andThen (setLogLevel_endAlg s) (\<lambda>_ s.
     andThen (log (Info (m_description s)) s) (\<lambda>_ s.
     Returns True s)))))))))))"

definition initialize :: "Collaborators \<Rightarrow> Session \<Rightarrow> bool outcome" where
  "initialize C s = andThen (init_timers s) (\<lambda>_ s. init_handlers C s)"

subsection \<open>\<^verbatim>\<open>SniperProfiling::finalize\<close>\<close>

text \<open>\<^verbatim>\<open>hdl->unregist(nm)\<close> through one of the four pointers, and \<^verbatim>\<open>delete hdl\<close>.\<close>

definition unregist_through :: "'a ref \<Rightarrow> string \<Rightarrow> hdl \<Rightarrow> Session \<Rightarrow> unit outcome" where
  "unregist_through r nm h s = through r (\<lambda>this. unregist nm h) s"

definition delete_hdl :: "'a ref \<Rightarrow> 'a ref" where
  "delete_hdl r = (case r of Null \<Rightarrow> Null | Object this \<Rightarrow> Deleted | Deleted \<Rightarrow> Deleted)"

definition delete_handlers :: "Session \<Rightarrow> unit outcome" where
  "delete_handlers s =
     Returns () (s\<lparr>m_beginEvtHdl := delete_hdl (m_beginEvtHdl s),
                    m_endEvtHdl := delete_hdl (m_endEvtHdl s),
                    m_beginAlgHdl := delete_hdl (m_beginAlgHdl s),
                    m_endAlgHdl := delete_hdl (m_endAlgHdl s)\<rparr>)"

text \<open>
  The columns that lines 205 to 209 and 213 to 217 print for a timer: the number of
  measurements, that number times the mean, the mean and the RMS.
\<close>

definition row_of :: "string \<Rightarrow> SniperTimer \<Rightarrow> report_line" where
  "row_of nm t =
     Row nm (number_of_measurements t) (real (number_of_measurements t) * mean t)
       (mean t) (rms t)"

definition sum_row_of :: "string \<Rightarrow> SniperTimer \<Rightarrow> report_line" where
  "sum_row_of nm t =
     SumRow nm (number_of_measurements t) (real (number_of_measurements t) * mean t)
       (mean t) (rms t)"

text \<open>
  One row of the loop of lines 203 to 211. The statement reads \<^verbatim>\<open>m_algTimer[it]\<close>
  five times; the first read inserts a null pointer if the name is absent and the
  dereference that follows faults, so one read stands for the five.
\<close>

definition put_row :: "Collaborators \<Rightarrow> string \<Rightarrow> Session \<Rightarrow> unit outcome" where
  "put_row C it s =
     andThen (map_index it s) (\<lambda>p s.
     andThen (timer_read p s) (\<lambda>t s.
     put C (row_of it t) s))"

fun put_rows :: "Collaborators \<Rightarrow> string list \<Rightarrow> Session \<Rightarrow> unit outcome" where
  "put_rows C [] s = Returns () s"
| "put_rows C (it # rest) s =
     (case put_row C it s of
        Returns u s' \<Rightarrow> put_rows C rest s'
      | Throws e s' \<Rightarrow> Throws e s'
      | Fault x s' \<Rightarrow> Fault x s')"

text \<open>Lines 213 to 218: \<^verbatim>\<open>getParent()\<close> is the pointer \<open>m_par\<close>.\<close>

definition put_summary :: "Collaborators \<Rightarrow> Session \<Rightarrow> unit outcome" where
  "put_summary C s =
     (case m_par s of
        None \<Rightarrow> Fault NullDereference s
      | Some par \<Rightarrow>
          andThen (timer_read (m_evtTimer s) s) (\<lambda>t s.
          put C (sum_row_of (objName par) t) s))"

text \<open>Lines 225 and 226: every pointer of the map is deleted.\<close>

fun delete_timers :: "(string \<times> ptr) list \<Rightarrow> Session \<Rightarrow> unit outcome" where
  "delete_timers [] s = Returns () s"
| "delete_timers (it # rest) s =
     (case delete_timer (snd it) s of
        Returns u s' \<Rightarrow> delete_timers rest s'
      | Throws e s' \<Rightarrow> Throws e s'
      | Fault x s' \<Rightarrow> Fault x s')"

text \<open>Lines 176 to 179: the four handlers are unregistered through their pointers.\<close>

definition unregist_handlers :: "Session \<Rightarrow> unit outcome" where
  "unregist_handlers s =
     andThen (unregist_through (m_beginEvtHdl s) ''BeginEvent'' BeginEvtHdl s) (\<lambda>_ s.
     andThen (unregist_through (m_endEvtHdl s) ''EndEvent'' EndEvtHdl s) (\<lambda>_ s.
     andThen (unregist_through (m_beginAlgHdl s) ''BeginAlg'' BeginAlgHdl s) (\<lambda>_ s.
     unregist_through (m_endAlgHdl s) ''EndAlg'' EndAlgHdl s)))"

text \<open>Lines 190 to 219: the five output statements between \<open>lock\<close> and \<open>unlock\<close>.\<close>

definition report_lines :: "Collaborators \<Rightarrow> Session \<Rightarrow> unit outcome" where
  "report_lines C s =
     andThen (put C Banner s) (\<lambda>_ s.
     andThen (put C Header s) (\<lambda>_ s.
     andThen (put_rows C (m_algName s) s) (\<lambda>_ s.
     andThen (put_summary C s) (\<lambda>_ s.
     put C Closing s))))"

text \<open>Lines 224 to 226: the event timer and the timers of the map are deleted.\<close>

definition release_timers :: "Session \<Rightarrow> unit outcome" where
  "release_timers s =
     andThen (delete_timer (m_evtTimer s) s) (\<lambda>_ s.
     delete_timers (m_algTimer s) s)"

definition finalize :: "Collaborators \<Rightarrow> Session \<Rightarrow> bool outcome" where
  "finalize C s =
     andThen (unregist_handlers s) (\<lambda>_ s.
     andThen (delete_handlers s) (\<lambda>_ s.
     andThen (lock s) (\<lambda>_ s.
     andThen (report_lines C s) (\<lambda>_ s.
     andThen (unlock s) (\<lambda>_ s.
     andThen (release_timers s) (\<lambda>_ s.
     andThen (log (Info ''finalized successfully'') s) (\<lambda>_ s.
     Returns True s)))))))"

subsection \<open>Vocabulary of the statements\<close>

text \<open>How a call ended, and the session it left behind.\<close>

datatype how = Returned | Threw error | Faulted fault

fun ending :: "'a outcome \<Rightarrow> how" where
  "ending (Returns a s) = Returned"
| "ending (Throws e s) = Threw e"
| "ending (Fault x s) = Faulted x"

fun final_state :: "'a outcome \<Rightarrow> Session" where
  "final_state (Returns a s) = s"
| "final_state (Throws e s) = s"
| "final_state (Fault x s) = s"

text \<open>
  A well-formed configuration of a task: the list \<open>algorithms\<close> with one entry per
  identifier.
\<close>

definition alg_entry :: "string \<Rightarrow> SniperJSON" where
  "alg_entry idtf = JMap [(''identifier'', JString idtf)]"

definition task_config :: "string list \<Rightarrow> SniperJSON" where
  "task_config ids = JMap [(''algorithms'', JVector (map alg_entry ids))]"

text \<open>The timer that the map holds for a name, if it holds one.\<close>

definition timer_of :: "Session \<Rightarrow> string \<Rightarrow> SniperTimer option" where
  "timer_of s k =
     (case map_of (m_algTimer s) k of
        Some (Some a) \<Rightarrow> heap s a
      | _ \<Rightarrow> None)"

definition evt_timer_of :: "Session \<Rightarrow> SniperTimer option" where
  "evt_timer_of s = (case m_evtTimer s of Some a \<Rightarrow> heap s a | None \<Rightarrow> None)"

text \<open>The index of the last occurrence of an element of a list.\<close>

fun last_occurrence :: "'a \<Rightarrow> 'a list \<Rightarrow> nat" where
  "last_occurrence k [] = 0"
| "last_occurrence k (x # xs) = (if k \<in> set xs then Suc (last_occurrence k xs) else 0)"

text \<open>
  The four registrations of \<open>initialize\<close>, in its order, and the part of them that is
  made before the first one that the host refuses.
\<close>

definition the_handlers :: "(string \<times> hdl) list" where
  "the_handlers =
     [(''BeginEvent'', BeginEvtHdl), (''EndEvent'', EndEvtHdl),
      (''BeginAlg'', BeginAlgHdl), (''EndAlg'', EndAlgHdl)]"

definition accepted :: "Collaborators \<Rightarrow> (string \<times> hdl) list" where
  "accepted C = takeWhile (\<lambda>(nm, h). \<not> regist_raises C nm) the_handlers"

text \<open>
  Two kinds of steps of \<open>finalize\<close>, seen from the log: a step that writes nothing,
  leaves the lock alone and raises nothing; and a step that writes lines of the report
  and nothing else, and leaves the lock alone.
\<close>

definition silent :: "'a outcome \<Rightarrow> Session \<Rightarrow> bool" where
  "silent m s \<longleftrightarrow>
     trace (final_state m) = trace s \<and> locked (final_state m) = locked s \<and>
     ending m \<in> {Returned, Faulted NullDereference, Faulted DanglingPointer}"

definition writes_rows :: "'a outcome \<Rightarrow> Session \<Rightarrow> bool" where
  "writes_rows m s \<longleftrightarrow>
     (\<exists>ls. trace (final_state m) = trace s @ map Put ls) \<and>
     locked (final_state m) = locked s"

text \<open>The part of an identifier that \<open>initialize\<close> takes as the name of the algorithm.\<close>

definition name_part :: "string \<Rightarrow> string" where
  "name_part idtf = (if CHR ''/'' \<in> set idtf then after_first_slash idtf else idtf)"



text \<open>
  What a handler that returns leaves alone: every member of the session, and which
  addresses of the store hold a timer.
\<close>

definition same_members :: "Session \<Rightarrow> Session \<Rightarrow> bool" where
  "same_members s s' \<longleftrightarrow>
     m_par s' = m_par s \<and> m_evtTimer s' = m_evtTimer s \<and>
     m_algName s' = m_algName s \<and> m_algTimer s' = m_algTimer s \<and>
     m_beginEvtHdl s' = m_beginEvtHdl s \<and> m_endEvtHdl s' = m_endEvtHdl s \<and>
     m_beginAlgHdl s' = m_beginAlgHdl s \<and> m_endAlgHdl s' = m_endAlgHdl s \<and>
     next_addr s' = next_addr s \<and> registered s' = registered s \<and>
     locked s' = locked s \<and>
     (\<forall>a. (heap s' a = None) = (heap s a = None))"

subsection \<open>Concrete sessions\<close>

text \<open>Collaborators that never fail, and ones whose stream or host fails once.\<close>

definition quiet :: Collaborators where
  "quiet = \<lparr>regist_raises = (\<lambda>nm. False), put_raises = (\<lambda>l. False), hdl_logLevel = 3\<rparr>"

definition broken_stream :: Collaborators where
  "broken_stream = quiet\<lparr>put_raises := (\<lambda>l. l = Closing)\<rparr>"

definition refusing_host :: Collaborators where
  "refusing_host = quiet\<lparr>regist_raises := (\<lambda>nm. nm = ''BeginAlg'')\<rparr>"

text \<open>A task with the one algorithm of the spec's scenario, and the session before and
  after its activation.\<close>

definition example_task :: ExecUnit where
  "example_task = Task ''task'' (task_config [''HelloAlg/trackFit''])"

definition example_session :: Session where
  "example_session = new_Session (Some example_task) ''SniperProfiling'' 3"

definition example_active :: Session where
  "example_active =
     \<lparr>m_par = Some example_task, m_description = ''SniperProfiling'', logLevel = 3,
      m_evtTimer = Some 0, m_algName = [''trackFit''],
      m_algTimer = [(''trackFit'', Some 1)],
      m_beginEvtHdl = Object (new_EvtHandler quiet ''BeginEvtHandler'' (Some 0)),
      m_endEvtHdl = Object (new_EvtHandler quiet ''EndEvtHandler'' (Some 0)),
      m_beginAlgHdl = Object (new_AlgHandler quiet ''BeginAlgHandler''),
      m_endAlgHdl = Object (new_AlgHandler quiet ''EndAlgHandler''),
      heap = ((\<lambda>a. None)(0 \<mapsto> new_SniperTimer ''evtTimer''))(1 \<mapsto> new_SniperTimer ''trackFit''),
      next_addr = 2, registered = the_handlers, locked = False,
      trace = [Info ''SniperProfiling'']\<rparr>"

text \<open>The same session while an event and its algorithm are being timed, since 0.\<close>

definition example_running :: Session where
  "example_running =
     example_active\<lparr>heap :=
       ((\<lambda>a. None)
          (0 \<mapsto> (new_SniperTimer ''evtTimer'')\<lparr>t_running := True, t_started_at := Some 0\<rparr>))
          (1 \<mapsto> (new_SniperTimer ''trackFit'')\<lparr>t_running := True, t_started_at := Some 0\<rparr>)\<rparr>"


text \<open>A task that configures the name \<open>A\<close> twice.\<close>

definition twice_session :: Session where
  "twice_session =
     new_Session (Some (Task ''task'' (task_config [''x/A'', ''y/A'']))) ''SniperProfiling'' 3"

section \<open>Properties\<close>

subsection \<open>Sequencing\<close>

lemma andThen_simps [simp]:
  "andThen (Returns a s) f = f a s"
  "andThen (Throws e s) f = Throws e s"
  "andThen (Fault x s) f = Fault x s"
  by (simp_all add: andThen_def)

lemma lift_simps [simp]:
  "lift (Inl e) s = Throws e s"
  "lift (Inr a) s = Returns a s"
  by (simp_all add: lift_def)

lemma through_simps [simp]:
  "through Null f s = Fault NullDereference s"
  "through Deleted f s = Fault DanglingPointer s"
  "through (Object this) f s = f this s"
  by (simp_all add: through_def)

subsection \<open>The name of an algorithm\<close>

lemma find_from_eq:
  "find_from s c i =
     (if c \<in> set s then of_nat (i + length (takeWhile (\<lambda>x. x \<noteq> c) s)) else npos)"
  by (induction s arbitrary: i) auto

lemma find_char_absent: "c \<notin> set s \<Longrightarrow> find_char s c + 1 = 0"
  by (simp add: find_char_def find_from_eq npos_def)

lemma unat_size_of: "length s < 2 ^ 64 \<Longrightarrow> unat (size_of s) = length s"
  by (simp add: size_of_def unat_of_nat)

lemma unat_find_char_present:
  assumes "c \<in> set s" and "length s < 2 ^ 64"
  shows "unat (find_char s c + 1) = Suc (length (takeWhile (\<lambda>x. x \<noteq> c) s))"
proof -
  have "length (takeWhile (\<lambda>x. x \<noteq> c) s) < length s"
    using assms(1) by (induction s) auto
  then have b: "Suc (length (takeWhile (\<lambda>x. x \<noteq> c) s)) < 2 ^ 64"
    using assms(2) by simp
  have "find_char s c + 1 = (of_nat (Suc (length (takeWhile (\<lambda>x. x \<noteq> c) s))) :: size_t)"
    using assms(1) by (simp add: find_char_def find_from_eq)
  then show ?thesis using b by (simp add: unat_of_nat del: of_nat_Suc)
qed

lemma drop_Suc_takeWhile: "drop (Suc (length (takeWhile P s))) s = drop 1 (dropWhile P s)"
  by (induction s) auto

lemma take_size_drop: "take (length s) (drop n s) = drop n s"
  by simp

lemma algName_of_eq:
  assumes "length idtf < 2 ^ 64"
  shows "algName_of idtf =
     Inr (if CHR ''/'' \<in> set idtf then after_first_slash idtf else idtf)"
proof (cases "CHR ''/'' \<in> set idtf")
  case True
  let ?k = "length (takeWhile (\<lambda>x. x \<noteq> CHR ''/'') idtf)"
  have l: "?k < length idtf"
    using True by (induction idtf) auto
  have p: "unat (find_char idtf CHR ''/'' + 1) = Suc ?k"
    using True assms by (rule unat_find_char_present)
  have "algName_of idtf = Inr (take (length idtf) (drop (Suc ?k) idtf))"
    using l by (simp add: algName_of_def substr_def p unat_size_of [OF assms])
  also have "\<dots> = Inr (after_first_slash idtf)"
    unfolding take_size_drop by (simp add: after_first_slash_def drop_Suc_takeWhile)
  finally show ?thesis using True by simp
next
  case False
  then show ?thesis using assms
    by (simp add: algName_of_def substr_def find_char_absent unat_size_of)
qed



lemma init_alg_entry:
  assumes "algName_of idtf = Inr k"
  shows "init_alg (alg_entry idtf) s =
     Returns ()
       (s\<lparr>m_algName := m_algName s @ [k],
          heap := (heap s)(next_addr s \<mapsto> new_SniperTimer k),
          next_addr := Suc (next_addr s),
          m_algTimer := AList.update k (Some (next_addr s)) (m_algTimer s)\<rparr>)"
  using assms
  by (simp add: init_alg_def alg_entry_def json_at_def json_get_string_def new_timer_def)






subsection \<open>Unfolding the model on concrete sessions\<close>

lemmas timer_defs = new_SniperTimer_def start_def stop_def elapsed_def
  number_of_measurements_def mean_def rms_def

lemmas pointer_defs = deref_def timer_start_def timer_stop_def timer_read_def
  map_index_def new_timer_def delete_timer_def log_def

lemmas handler_defs = BeginEvtHandler_handle_def EndEvtHandler_handle_def
  BeginAlgHandler_handle_def EndAlgHandler_handle_def payload_key_def

lemmas config_defs = task_json_def json_at_def json_vec_def json_get_string_def
  init_alg_def algName_of_def substr_def find_char_def size_of_def

lemmas initialize_defs = initialize_def init_timers_def init_handlers_def regist_def setLogLevel_endEvt_def
  setLogLevel_endAlg_def

lemmas finalize_defs = finalize_def unregist_handlers_def report_lines_def
  release_timers_def unregist_through_def unregist_def delete_handlers_def
  delete_hdl_def lock_def unlock_def put_def put_row_def put_summary_def row_of_def
  sum_row_of_def

lemmas example_defs = example_active_def example_running_def example_task_def
  example_session_def new_Session_def quiet_def new_EvtHandler_def new_AlgHandler_def
  the_handlers_def task_config_def alg_entry_def

subsection \<open>The statistics of a timer\<close>

lemma measure_all_sums:
  "\<not> t_running t \<Longrightarrow>
   \<exists>t'. measure_all ps t = Inr t' \<and> \<not> t_running t' \<and>
        t_count t' = t_count t + length ps \<and>
        t_sum t' = t_sum t + sum_list (durations ps) \<and>
        t_sum_of_squares t' =
          t_sum_of_squares t + sum_list (map (\<lambda>e. e * e) (durations ps))"
proof (induction ps arbitrary: t)
  case Nil
  then show ?case by (simp add: durations_def)
next
  case (Cons p ps)
  obtain t0 t1 where p: "p = (t0, t1)" by (cases p)
  let ?u = "t\<lparr>t_running := False, t_started_at := None,
                t_count := t_count t + 1,
                t_sum := t_sum t + (t1 - t0),
                t_sum_of_squares := t_sum_of_squares t + (t1 - t0) * (t1 - t0),
                t_elapsed := t1 - t0\<rparr>"
  have step: "measure_all (p # ps) t = measure_all ps ?u"
    using Cons.prems by (simp add: p start_def stop_def)
  have "\<not> t_running ?u" by simp
  from Cons.IH [OF this] obtain t' where
    "measure_all ps ?u = Inr t'" "\<not> t_running t'"
    "t_count t' = t_count ?u + length ps"
    "t_sum t' = t_sum ?u + sum_list (durations ps)"
    "t_sum_of_squares t' = t_sum_of_squares ?u + sum_list (map (\<lambda>e. e * e) (durations ps))"
    by blast
  then show ?case
    using step by (simp add: durations_def p)
qed

lemma measure_all_fresh:
  "\<exists>t. measure_all ps (new_SniperTimer nm) = Inr t \<and>
       t_count t = length ps \<and>
       t_sum t = sum_list (durations ps) \<and>
       t_sum_of_squares t = sum_list (map (\<lambda>e. e * e) (durations ps))"
proof -
  have "\<not> t_running (new_SniperTimer nm)"
    by (simp add: new_SniperTimer_def)
  from measure_all_sums [OF this, of ps] obtain t where
    "measure_all ps (new_SniperTimer nm) = Inr t"
    "t_count t = t_count (new_SniperTimer nm) + length ps"
    "t_sum t = t_sum (new_SniperTimer nm) + sum_list (durations ps)"
    "t_sum_of_squares t =
       t_sum_of_squares (new_SniperTimer nm) + sum_list (map (\<lambda>e. e * e) (durations ps))"
    by blast
  then show ?thesis
    by (simp add: new_SniperTimer_def)
qed

text \<open>
  Claim C6. A new timer takes any sequence of \<open>N\<close> matched start/stop pairs; afterwards
  its count is \<open>N\<close>, its mean is the sum of the elapsed durations over \<open>N\<close> and its RMS
  is the square root of the sum of their squares over \<open>N\<close>. A timer whose count is 0
  has mean 0 and RMS 0: the accessors do not divide then. (Stated on the timer as the spec
  describes it, with durations as real numbers.)
\<close>

theorem timer_statistics:
  "\<exists>t. measure_all ps (new_SniperTimer nm) = Inr t \<and>
       number_of_measurements t = length ps \<and>
       mean t = (if ps = [] then 0 else sum_list (durations ps) / real (length ps)) \<and>
       rms t = (if ps = [] then 0
                else sqrt (sum_list (map (\<lambda>e. e * e) (durations ps)) / real (length ps))) \<and>
       (number_of_measurements u = 0 \<longrightarrow> mean u = 0 \<and> rms u = 0)"
proof -
  obtain t where
    m: "measure_all ps (new_SniperTimer nm) = Inr t" and
    c: "t_count t = length ps" and
    s: "t_sum t = sum_list (durations ps)" and
    q: "t_sum_of_squares t = sum_list (map (\<lambda>e. e * e) (durations ps))"
    using measure_all_fresh [of ps nm] by blast
  have 1: "number_of_measurements t = length ps"
    using c by (simp add: number_of_measurements_def)
  have 2: "mean t = (if ps = [] then 0 else sum_list (durations ps) / real (length ps))"
    using c s by (simp add: mean_def)
  have 3: "rms t = (if ps = [] then 0
                else sqrt (sum_list (map (\<lambda>e. e * e) (durations ps)) / real (length ps)))"
    using c q by (simp add: rms_def)
  have 4: "number_of_measurements u = 0 \<longrightarrow> mean u = 0 \<and> rms u = 0"
    by (simp add: number_of_measurements_def mean_def rms_def)
  show ?thesis
    by (rule exI [of _ t]) (intro conjI m 1 2 3 4)
qed

lemma sqrt_100: "sqrt 100 = 10"
  by (rule real_sqrt_unique) simp_all

text \<open>
  The timer of the spec's scenario, one measurement of 10 ms, and a timer that never ran.
\<close>

theorem timer_statistics_witness:
  "number_of_measurements (new_SniperTimer ''idle'') = 0 \<and>
   mean (new_SniperTimer ''idle'') = 0 \<and> rms (new_SniperTimer ''idle'') = 0 \<and>
   (\<exists>t. measure_all [(0, 10)] (new_SniperTimer ''trackFit'') = Inr t \<and>
        number_of_measurements t = 1 \<and> mean t = 10 \<and> rms t = 10)"
proof -
  have z: "number_of_measurements (new_SniperTimer ''idle'') = 0"
    by (simp add: number_of_measurements_def new_SniperTimer_def)
  obtain t where
    "measure_all [(0, 10)] (new_SniperTimer ''trackFit'') = Inr t"
    "number_of_measurements t = 1" "mean t = 10" "rms t = sqrt 100"
    "mean (new_SniperTimer ''idle'') = 0 \<and> rms (new_SniperTimer ''idle'') = 0"
    using timer_statistics [of "[(0, 10)]" "''trackFit''" "new_SniperTimer ''idle''"] z
    by (simp add: durations_def) blast
  then show ?thesis
    using z by (simp add: sqrt_100)
qed

subsection \<open>What a handler returns\<close>

lemma andThen_Returns_iff:
  "andThen m f = Returns b s' \<longleftrightarrow> (\<exists>a s1. m = Returns a s1 \<and> f a s1 = Returns b s')"
  by (cases m) simp_all

lemma BeginEvt_returns: "BeginEvtHandler_handle e now incident s = Returns b s' \<Longrightarrow> b"
  unfolding BeginEvtHandler_handle_def by (clarsimp simp: andThen_Returns_iff)

lemma EndEvt_returns: "EndEvtHandler_handle e now incident s = Returns b s' \<Longrightarrow> b"
  unfolding EndEvtHandler_handle_def by (clarsimp simp: andThen_Returns_iff)

lemma BeginAlg_returns: "BeginAlgHandler_handle a now incident s = Returns b s' \<Longrightarrow> b"
  unfolding BeginAlgHandler_handle_def by (clarsimp simp: andThen_Returns_iff)

lemma EndAlg_returns: "EndAlgHandler_handle a now incident s = Returns b s' \<Longrightarrow> b"
  unfolding EndAlgHandler_handle_def by (clarsimp simp: andThen_Returns_iff)

text \<open>
  Claim C10. Whenever one of the four handlers returns, it returns \<open>true\<close>, for every
  handler object, clock reading, incident and session: nothing that a handler sees, the
  running state of a timer included, comes back as \<open>false\<close>. (A timer in the wrong state
  makes the call raise, so it does not return at all.)
\<close>

theorem handlers_return_true:
  assumes "BeginEvtHandler_handle e now incident s = Returns b s' \<or>
           EndEvtHandler_handle e now incident s = Returns b s' \<or>
           BeginAlgHandler_handle a now incident s = Returns b s' \<or>
           EndAlgHandler_handle a now incident s = Returns b s'"
  shows "b = True"
  using assms BeginEvt_returns EndEvt_returns BeginAlg_returns EndAlg_returns
  by auto

lemma BeginEvt_example:
  "\<exists>s'. BeginEvtHandler_handle (new_EvtHandler quiet ''BeginEvtHandler'' (Some 0)) 0
     (Incident ''BeginEvent'') example_active = Returns True s'"
  by (simp add: handler_defs pointer_defs timer_defs example_defs)

lemma EndEvt_example:
  "\<exists>s'. EndEvtHandler_handle (new_EvtHandler quiet ''EndEvtHandler'' (Some 0)) 12
     (Incident ''EndEvent'') example_running = Returns True s'"
  by (simp add: handler_defs pointer_defs timer_defs example_defs)

lemma BeginAlg_example:
  "\<exists>s'. BeginAlgHandler_handle (new_AlgHandler quiet ''BeginAlgHandler'') 0
     (Incident_T_AlgBase ''BeginAlg'' (Some (AlgBase ''trackFit''))) example_active
   = Returns True s'"
  by (simp add: handler_defs pointer_defs timer_defs example_defs)

lemma EndAlg_example:
  "\<exists>s'. EndAlgHandler_handle (new_AlgHandler quiet ''EndAlgHandler'') 10
     (Incident_T_AlgBase ''EndAlg'' (Some (AlgBase ''trackFit''))) example_running
   = Returns True s'"
  by (simp add: handler_defs pointer_defs timer_defs example_defs)

lemma Returns_final_state: "m = Returns b s \<Longrightarrow> m = Returns b (final_state m)"
  by simp

text \<open>The four handlers on the session of the scenario: each returns, and returns true.\<close>

theorem handlers_return_true_witness:
  "BeginEvtHandler_handle (new_EvtHandler quiet ''BeginEvtHandler'' (Some 0)) 0
     (Incident ''BeginEvent'') example_active
   = Returns True (final_state (BeginEvtHandler_handle
       (new_EvtHandler quiet ''BeginEvtHandler'' (Some 0)) 0
       (Incident ''BeginEvent'') example_active)) \<and>
   EndEvtHandler_handle (new_EvtHandler quiet ''EndEvtHandler'' (Some 0)) 12
     (Incident ''EndEvent'') example_running
   = Returns True (final_state (EndEvtHandler_handle
       (new_EvtHandler quiet ''EndEvtHandler'' (Some 0)) 12
       (Incident ''EndEvent'') example_running)) \<and>
   BeginAlgHandler_handle (new_AlgHandler quiet ''BeginAlgHandler'') 0
     (Incident_T_AlgBase ''BeginAlg'' (Some (AlgBase ''trackFit''))) example_active
   = Returns True (final_state (BeginAlgHandler_handle
       (new_AlgHandler quiet ''BeginAlgHandler'') 0
       (Incident_T_AlgBase ''BeginAlg'' (Some (AlgBase ''trackFit''))) example_active)) \<and>
   EndAlgHandler_handle (new_AlgHandler quiet ''EndAlgHandler'') 10
     (Incident_T_AlgBase ''EndAlg'' (Some (AlgBase ''trackFit''))) example_running
   = Returns True (final_state (EndAlgHandler_handle
       (new_AlgHandler quiet ''EndAlgHandler'') 10
       (Incident_T_AlgBase ''EndAlg'' (Some (AlgBase ''trackFit''))) example_running))"
proof -
  let ?e = "new_EvtHandler quiet ''BeginEvtHandler'' (Some 0)"
  let ?a = "new_AlgHandler quiet ''BeginAlgHandler''"
  have 1: ?thesis if
    "BeginEvtHandler_handle (new_EvtHandler quiet ''BeginEvtHandler'' (Some 0)) 0
       (Incident ''BeginEvent'') example_active = Returns b1 s1"
    "EndEvtHandler_handle (new_EvtHandler quiet ''EndEvtHandler'' (Some 0)) 12
       (Incident ''EndEvent'') example_running = Returns b2 s2"
    "BeginAlgHandler_handle (new_AlgHandler quiet ''BeginAlgHandler'') 0
       (Incident_T_AlgBase ''BeginAlg'' (Some (AlgBase ''trackFit''))) example_active
     = Returns b3 s3"
    "EndAlgHandler_handle (new_AlgHandler quiet ''EndAlgHandler'') 10
       (Incident_T_AlgBase ''EndAlg'' (Some (AlgBase ''trackFit''))) example_running
     = Returns b4 s4"
    for b1 b2 b3 b4 s1 s2 s3 s4
  proof -
    have "b1 = True"
      using handlers_return_true [of ?e 0 "Incident ''BeginEvent''" example_active b1 s1 ?a]
        that(1) by simp
    moreover have "b2 = True"
      using handlers_return_true [of "new_EvtHandler quiet ''EndEvtHandler'' (Some 0)" 12
          "Incident ''EndEvent''" example_running b2 s2 ?a]
        that(2) by simp
    moreover have "b3 = True"
      using handlers_return_true [of ?e 0
          "Incident_T_AlgBase ''BeginAlg'' (Some (AlgBase ''trackFit''))" example_active b3 s3 ?a]
        that(3) by simp
    moreover have "b4 = True"
      using handlers_return_true [of ?e 10
          "Incident_T_AlgBase ''EndAlg'' (Some (AlgBase ''trackFit''))" example_running b4 s4
          "new_AlgHandler quiet ''EndAlgHandler''"]
        that(4) by simp
    ultimately show ?thesis
      using that by simp
  qed
  from BeginEvt_example EndEvt_example BeginAlg_example EndAlg_example
  show ?thesis
    using 1 by blast
qed

subsection \<open>Notifications the handlers are not prepared for\<close>

text \<open>
  Claim C1 says that a notification naming an algorithm that is not in the map fails with
  \<open>UnknownAlgorithmError\<close> and creates no entry. On the session of the scenario the
  handler for \<open>BeginAlg\<close> ends in the dereference of a null pointer, and the map has got
  an entry for the unknown name \<open>Z\<close>.
\<close>

theorem unknown_key_counterexample:
  "map_of (m_algTimer example_active) ''Z'' = None \<and>
   BeginAlgHandler_handle (new_AlgHandler quiet ''BeginAlgHandler'') 0
     (Incident_T_AlgBase ''BeginAlg'' (Some (AlgBase ''Z''))) example_active
   = Fault NullDereference
       (example_active\<lparr>m_algTimer := [(''trackFit'', Some 1), (''Z'', None)]\<rparr>) \<and>
   BeginAlgHandler_handle (new_AlgHandler quiet ''BeginAlgHandler'') 0
     (Incident_T_AlgBase ''BeginAlg'' (Some (AlgBase ''Z''))) example_active
   \<noteq> Throws UnknownAlgorithmError example_active"
  by (simp add: handler_defs pointer_defs example_defs)

text \<open>
  Claim C1, amended. For a notification whose payload names an algorithm that has no entry
  in the map, both handlers of algorithm notifications end in the dereference of a null
  pointer: they do not return, and they raise no \<open>UnknownAlgorithmError\<close>. The lookup
  \<^verbatim>\<open>h_timerMap[key]\<close> has by then inserted the name with a null pointer; nothing else
  of the session has changed, no timer and no name of the report.
\<close>

theorem unknown_key_inserts_null:
  assumes "map_of (m_algTimer s) key = None"
    and "incident = Incident_T_AlgBase nm (Some (AlgBase key))"
  shows "BeginAlgHandler_handle this now incident s =
           Fault NullDereference (s\<lparr>m_algTimer := AList.update key None (m_algTimer s)\<rparr>) \<and>
         EndAlgHandler_handle this now incident s =
           Fault NullDereference (s\<lparr>m_algTimer := AList.update key None (m_algTimer s)\<rparr>) \<and>
         map_of (AList.update key None (m_algTimer s)) key = Some None"
  using assms by (simp add: handler_defs pointer_defs update_Some_unfold)

theorem unknown_key_inserts_null_witness:
  "map_of (m_algTimer example_active) ''Z'' = None \<and>
   EndAlgHandler_handle (new_AlgHandler quiet ''EndAlgHandler'') 0
     (Incident_T_AlgBase ''EndAlg'' (Some (AlgBase ''Z''))) example_active
   = Fault NullDereference
       (example_active\<lparr>m_algTimer := AList.update ''Z'' None (m_algTimer example_active)\<rparr>)"
proof -
  have h: "map_of (m_algTimer example_active) ''Z'' = None"
    by (simp add: example_defs)
  show ?thesis
    using h unknown_key_inserts_null [where s = example_active and key = "''Z''"
        and nm = "''EndAlg''" and this = "new_AlgHandler quiet ''EndAlgHandler''" and now = 0,
        OF h refl]
    by simp
qed

text \<open>
  Claim C3 says that a payload of the wrong type makes the handlers of algorithm
  notifications fail with \<open>PayloadTypeMismatchError\<close>. A plain incident, or one with
  another payload type, ends in the dereference of the null pointer that the cast gives.
\<close>

theorem payload_mismatch_counterexample:
  "BeginAlgHandler_handle (new_AlgHandler quiet ''BeginAlgHandler'') 0
     (Incident ''BeginAlg'') example_active = Fault NullDereference example_active \<and>
   BeginAlgHandler_handle (new_AlgHandler quiet ''BeginAlgHandler'') 0
     (Incident ''BeginAlg'') example_active \<noteq> Throws PayloadTypeMismatchError example_active \<and>
   EndAlgHandler_handle (new_AlgHandler quiet ''EndAlgHandler'') 0
     (Incident_T_other ''EndAlg'') example_active = Fault NullDereference example_active \<and>
   EndAlgHandler_handle (new_AlgHandler quiet ''EndAlgHandler'') 0
     (Incident_T_other ''EndAlg'') example_active \<noteq> Throws PayloadTypeMismatchError example_active"
  by (simp add: handler_defs)

text \<open>
  Claim C3, amended. For every incident that is no \<^verbatim>\<open>Incident_T<AlgBase*>\<close>, both
  handlers of algorithm notifications end in the dereference of a null pointer: they do
  not return and raise no \<open>PayloadTypeMismatchError\<close>. The session is the one they were
  called with, so no timer is modified.
\<close>

theorem payload_mismatch_faults:
  assumes "\<forall>nm algPtr. incident \<noteq> Incident_T_AlgBase nm algPtr"
  shows "BeginAlgHandler_handle this now incident s = Fault NullDereference s \<and>
         EndAlgHandler_handle this now incident s = Fault NullDereference s"
  using assms by (cases incident) (simp_all add: handler_defs)

theorem payload_mismatch_faults_witness:
  "(\<forall>nm algPtr. Incident ''BeginAlg'' \<noteq> Incident_T_AlgBase nm algPtr) \<and>
   BeginAlgHandler_handle (new_AlgHandler quiet ''BeginAlgHandler'') 0
     (Incident ''BeginAlg'') example_active = Fault NullDereference example_active \<and>
   EndAlgHandler_handle (new_AlgHandler quiet ''EndAlgHandler'') 0
     (Incident ''BeginAlg'') example_active = Fault NullDereference example_active"
proof -
  have h: "\<forall>nm algPtr. Incident ''BeginAlg'' \<noteq> Incident_T_AlgBase nm algPtr"
    by simp
  show ?thesis
    using h payload_mismatch_faults [OF h, of "new_AlgHandler quiet ''BeginAlgHandler''" 0 example_active]
      payload_mismatch_faults [OF h, of "new_AlgHandler quiet ''EndAlgHandler''" 0 example_active]
    by simp
qed

subsection \<open>Building the registry\<close>

lemma algName_of_name_part: "length idtf < 2 ^ 64 \<Longrightarrow> algName_of idtf = Inr (name_part idtf)"
  by (simp add: algName_of_eq name_part_def)

lemma last_occurrence_is_last:
  "k \<in> set xs \<Longrightarrow>
   last_occurrence k xs < length xs \<and> xs ! last_occurrence k xs = k \<and>
   (\<forall>j. last_occurrence k xs < j \<and> j < length xs \<longrightarrow> xs ! j \<noteq> k)"
proof (induction xs)
  case Nil
  then show ?case by simp
next
  case (Cons x xs)
  show ?case
  proof (cases "k \<in> set xs")
    case True
    with Cons.IH show ?thesis
      by (auto simp: nth_Cons split: nat.splits)
  next
    case False
    with Cons.prems have "x = k" by simp
    with False show ?thesis
      by (auto simp: nth_Cons in_set_conv_nth split: nat.splits)
  qed
qed

lemma init_algs_entries:
  assumes "\<forall>idtf \<in> set ids. length idtf < 2 ^ 64"
  shows "\<exists>s'. init_algs (map alg_entry ids) s = Returns () s' \<and>
     m_algName s' = m_algName s @ map name_part ids \<and>
     next_addr s' = next_addr s + length ids \<and>
     (\<forall>k. map_of (m_algTimer s') k =
        (if k \<in> set (map name_part ids)
         then Some (Some (next_addr s + last_occurrence k (map name_part ids)))
         else map_of (m_algTimer s) k)) \<and>
     (\<forall>i < length ids. heap s' (next_addr s + i) = Some (new_SniperTimer (name_part (ids ! i)))) \<and>
     (\<forall>a < next_addr s. heap s' a = heap s a)"
  using assms
proof (induction ids arbitrary: s)
  case Nil
  then show ?case by simp
next
  case (Cons idtf ids)
  let ?k = "name_part idtf"
  let ?n = "next_addr s"
  let ?s1 = "s\<lparr>m_algName := m_algName s @ [?k],
               heap := (heap s)(?n \<mapsto> new_SniperTimer ?k),
               next_addr := Suc ?n,
               m_algTimer := AList.update ?k (Some ?n) (m_algTimer s)\<rparr>"
  have "algName_of idtf = Inr ?k"
    using Cons.prems by (simp add: algName_of_name_part)
  then have step: "init_algs (map alg_entry (idtf # ids)) s = init_algs (map alg_entry ids) ?s1"
    by (simp add: init_alg_entry)
  have "\<forall>idtf \<in> set ids. length idtf < 2 ^ 64"
    using Cons.prems by simp
  from Cons.IH [OF this, of ?s1] obtain s' where
    r: "init_algs (map alg_entry ids) ?s1 = Returns () s'" and
    n: "m_algName s' = m_algName ?s1 @ map name_part ids" and
    a: "next_addr s' = next_addr ?s1 + length ids" and
    m: "\<And>k. map_of (m_algTimer s') k =
        (if k \<in> set (map name_part ids)
         then Some (Some (next_addr ?s1 + last_occurrence k (map name_part ids)))
         else map_of (m_algTimer ?s1) k)" and
    h: "\<And>i. i < length ids \<Longrightarrow>
          heap s' (next_addr ?s1 + i) = Some (new_SniperTimer (name_part (ids ! i)))" and
    f: "\<And>a. a < next_addr ?s1 \<Longrightarrow> heap s' a = heap ?s1 a"
    by blast
  have 1: "m_algName s' = m_algName s @ map name_part (idtf # ids)"
    using n by simp
  have 2: "next_addr s' = ?n + length (idtf # ids)"
    using a by simp
  have 3: "\<forall>k. map_of (m_algTimer s') k =
        (if k \<in> set (map name_part (idtf # ids))
         then Some (Some (?n + last_occurrence k (map name_part (idtf # ids))))
         else map_of (m_algTimer s) k)"
    by (simp add: m update_conv)
  have 4: "\<forall>i < length (idtf # ids).
        heap s' (?n + i) = Some (new_SniperTimer (name_part ((idtf # ids) ! i)))"
  proof (intro allI impI)
    fix i assume i: "i < length (idtf # ids)"
    show "heap s' (?n + i) = Some (new_SniperTimer (name_part ((idtf # ids) ! i)))"
    proof (cases i)
      case 0
      then show ?thesis using f [of ?n] by simp
    next
      case (Suc j)
      then show ?thesis using h [of j] i by simp
    qed
  qed
  have 5: "\<forall>a < ?n. heap s' a = heap s a"
    using f by simp
  show ?case
    unfolding step using r 1 2 3 4 5 by (intro exI [of _ s'] conjI)
qed

text \<open>
  Claim C4 says that a name configured twice gives one timer, reused by the later entry,
  and one place in the report order. With \<open>x/A\<close> and \<open>y/A\<close> configured, \<open>A\<close> is
  twice in \<open>m_algName\<close>, and the map holds the timer made for the second entry
  (address 2), not the one made for the first (address 1).
\<close>

theorem duplicate_keys_counterexample:
  "ending (initialize quiet twice_session) = Returned \<and>
   m_algName (final_state (initialize quiet twice_session)) = [''A'', ''A''] \<and>
   m_algTimer (final_state (initialize quiet twice_session)) = [(''A'', Some 2)] \<and>
   heap (final_state (initialize quiet twice_session)) 1 = Some (new_SniperTimer ''A'') \<and>
   heap (final_state (initialize quiet twice_session)) 2 = Some (new_SniperTimer ''A'')"
  by (simp add: twice_session_def initialize_defs config_defs pointer_defs example_defs)

text \<open>
  Claim C4, amended. The loop appends the name of every configured entry to
  \<open>m_algName\<close>, so a name configured more than once is in the report order once per
  entry; it makes a new timer for every entry, each at an address of its own; the map
  holds one timer per name, the one made for the last entry with that name: a later entry
  replaces the timer of an earlier one in the map and does not reuse it.
\<close>

theorem duplicate_keys_replace:
  assumes "\<forall>idtf \<in> set ids. length idtf < 2 ^ 64"
  shows "\<exists>s'. init_algs (map alg_entry ids) s = Returns () s' \<and>
     m_algName s' = m_algName s @ map name_part ids \<and>
     (\<forall>i < length ids.
        heap s' (next_addr s + i) = Some (new_SniperTimer (name_part (ids ! i)))) \<and>
     (\<forall>k \<in> set (map name_part ids).
        map_of (m_algTimer s') k =
          Some (Some (next_addr s + last_occurrence k (map name_part ids))))"
proof -
  from init_algs_entries [OF assms, of s] obtain s' where
    "init_algs (map alg_entry ids) s = Returns () s'"
    "m_algName s' = m_algName s @ map name_part ids"
    "\<forall>i < length ids. heap s' (next_addr s + i) = Some (new_SniperTimer (name_part (ids ! i)))"
    "\<forall>k. map_of (m_algTimer s') k =
        (if k \<in> set (map name_part ids)
         then Some (Some (next_addr s + last_occurrence k (map name_part ids)))
         else map_of (m_algTimer s) k)"
    by blast
  then show ?thesis
    by (intro exI [of _ s']) simp
qed

lemma name_part_examples:
  "name_part ''x/A'' = ''A''" "name_part ''y/A'' = ''A''"
  by (simp_all add: name_part_def after_first_slash_def)

theorem duplicate_keys_replace_witness:
  "length ''x/A'' < (2::nat) ^ 64 \<and> length ''y/A'' < (2::nat) ^ 64 \<and>
   ''A'' \<in> set (map name_part [''x/A'', ''y/A'']) \<and> (1::nat) < length [''x/A'', ''y/A''] \<and>
   (\<exists>s'. init_algs (map alg_entry [''x/A'', ''y/A'']) example_session = Returns () s' \<and>
      m_algName s' = [''A'', ''A''] \<and>
      heap s' 0 = Some (new_SniperTimer ''A'') \<and>
      heap s' 1 = Some (new_SniperTimer ''A'') \<and>
      map_of (m_algTimer s') ''A'' = Some (Some 1))"
proof -
  have h: "\<forall>idtf \<in> set [''x/A'', ''y/A'']. length idtf < (2::nat) ^ 64"
    by simp
  from duplicate_keys_replace [OF h, of example_session] obtain s' where
    r: "init_algs (map alg_entry [''x/A'', ''y/A'']) example_session = Returns () s'" and
    n: "m_algName s' = m_algName example_session @ map name_part [''x/A'', ''y/A'']" and
    t: "\<forall>i < length [''x/A'', ''y/A''].
        heap s' (next_addr example_session + i) =
          Some (new_SniperTimer (name_part ([''x/A'', ''y/A''] ! i)))" and
    m: "\<forall>k \<in> set (map name_part [''x/A'', ''y/A'']).
        map_of (m_algTimer s') k =
          Some (Some (next_addr example_session +
            last_occurrence k (map name_part [''x/A'', ''y/A''])))"
    by blast
  have 0: "next_addr example_session = 0" "m_algName example_session = []"
    by (simp_all add: example_session_def new_Session_def)
  have n': "m_algName s' = [''A'', ''A'']"
    using n by (simp add: 0 name_part_examples)
  have t0: "heap s' 0 = Some (new_SniperTimer ''A'')"
    using t [rule_format, of 0] by (simp add: 0 name_part_examples)
  have t1: "heap s' 1 = Some (new_SniperTimer ''A'')"
    using t [rule_format, of 1] by (simp add: 0 name_part_examples)
  have m': "map_of (m_algTimer s') ''A'' = Some (Some 1)"
    using m [rule_format, of "''A''"] by (simp add: 0 name_part_examples)
  show ?thesis
    using r n' t0 t1 m' by (simp add: name_part_examples)
qed

subsection \<open>Activation and the registrations\<close>

lemma andThen_final:
  "final_state (andThen m f) =
     (case m of Returns a s \<Rightarrow> final_state (f a s) | Throws e s \<Rightarrow> s | Fault x s \<Rightarrow> s)"
  by (cases m) simp_all

lemma andThen_ending:
  "ending (andThen m f) =
     (case m of Returns a s \<Rightarrow> ending (f a s) | Throws e s \<Rightarrow> Threw e | Fault x s \<Rightarrow> Faulted x)"
  by (cases m) simp_all

lemma init_alg_registered:
  "registered (final_state (init_alg it s)) = registered s \<and>
   ending (init_alg it s) \<noteq> Threw RegistrationFailure"
  by (simp add: init_alg_def json_at_def json_get_string_def algName_of_def substr_def
      new_timer_def split: SniperJSON.splits option.splits)

lemma init_algs_registered:
  "registered (final_state (init_algs its s)) = registered s \<and>
   ending (init_algs its s) \<noteq> Threw RegistrationFailure"
proof (induction its arbitrary: s)
  case Nil
  then show ?case by simp
next
  case (Cons it its)
  show ?case
  proof (cases "init_alg it s")
    case (Returns u s1)
    have "registered s1 = registered s"
      using init_alg_registered [of it s] Returns by simp
    then show ?thesis
      using Cons.IH [of s1] Returns by simp
  next
    case (Throws e s1)
    then show ?thesis
      using init_alg_registered [of it s] by simp
  next
    case (Fault x s1)
    then show ?thesis
      using init_alg_registered [of it s] by simp
  qed
qed

lemma init_timers_registered:
  "registered (final_state (init_timers s)) = registered s \<and>
   ending (init_timers s) \<noteq> Threw RegistrationFailure"
  using init_algs_registered
  by (simp add: init_timers_def task_json_def json_at_def json_vec_def new_timer_def
      split: option.splits ExecUnit.splits SniperJSON.splits)

lemma init_handlers_registered:
  "registered (final_state (init_handlers C s)) = registered s @ accepted C \<and>
   (ending (init_handlers C s) = Returned \<or>
    ending (init_handlers C s) = Threw RegistrationFailure) \<and>
   (ending (init_handlers C s) = Returned \<longleftrightarrow> accepted C = the_handlers)"
  by (simp add: init_handlers_def regist_def setLogLevel_endEvt_def setLogLevel_endAlg_def
      log_def accepted_def the_handlers_def)

text \<open>
  Claim C8 says that a failure during activation leaves no handler registered. When the
  host refuses the registration for \<open>BeginAlg\<close>, activation ends with that error and the
  two handlers registered before are still registered.
\<close>

theorem activation_failure_counterexample:
  "ending (initialize refusing_host example_session) = Threw RegistrationFailure \<and>
   registered (final_state (initialize refusing_host example_session)) =
     [(''BeginEvent'', BeginEvtHdl), (''EndEvent'', EndEvtHdl)]"
  by (simp add: refusing_host_def initialize_defs config_defs pointer_defs example_defs)

text \<open>
  Claim C8, amended. Activation has no rollback. A \<open>ConfigurationError\<close> is raised
  before the first registration, so it leaves the registrations as they were before the
  call. When the host refuses a registration, the error propagates and the handlers
  registered before the refused one stay registered. When activation returns, the four
  handlers are registered, in the order of the source.
\<close>

theorem activation_without_rollback:
  "(ending (initialize C s) = Threw ConfigurationError \<longrightarrow>
      registered (final_state (initialize C s)) = registered s) \<and>
   (ending (initialize C s) = Threw RegistrationFailure \<longrightarrow>
      registered (final_state (initialize C s)) = registered s @ accepted C \<and>
      accepted C \<noteq> the_handlers) \<and>
   (ending (initialize C s) = Returned \<longrightarrow>
      registered (final_state (initialize C s)) = registered s @ the_handlers)"
proof (cases "init_timers s")
  case (Returns u s1)
  have r: "registered s1 = registered s"
    using init_timers_registered [of s] Returns by simp
  have i: "initialize C s = init_handlers C s1"
    using Returns by (simp add: initialize_def)
  show ?thesis
    unfolding i using init_handlers_registered [of C s1] r by auto
next
  case (Throws e s1)
  then show ?thesis
    using init_timers_registered [of s] by (simp add: initialize_def)
next
  case (Fault x s1)
  then show ?thesis
    by (simp add: initialize_def)
qed

text \<open>A task without configuration, a host that refuses \<open>BeginAlg\<close>, and the scenario.\<close>

theorem activation_without_rollback_witness:
  "ending (initialize quiet (new_Session (Some (Task ''task'' JNull)) [] 3))
     = Threw ConfigurationError \<and>
   registered (final_state (initialize quiet (new_Session (Some (Task ''task'' JNull)) [] 3)))
     = [] \<and>
   ending (initialize refusing_host example_session) = Threw RegistrationFailure \<and>
   registered (final_state (initialize refusing_host example_session)) =
     [(''BeginEvent'', BeginEvtHdl), (''EndEvent'', EndEvtHdl)] \<and>
   ending (initialize quiet example_session) = Returned \<and>
   registered (final_state (initialize quiet example_session)) = the_handlers"
proof -
  have 1: "ending (initialize quiet (new_Session (Some (Task ''task'' JNull)) [] 3))
     = Threw ConfigurationError"
    by (simp add: initialize_defs config_defs new_Session_def)
  have 2: "ending (initialize refusing_host example_session) = Threw RegistrationFailure"
    by (simp add: refusing_host_def initialize_defs config_defs pointer_defs example_defs)
  have 3: "ending (initialize quiet example_session) = Returned"
    by (simp add: initialize_defs config_defs pointer_defs example_defs)
  have a: "accepted refusing_host = [(''BeginEvent'', BeginEvtHdl), (''EndEvent'', EndEvtHdl)]"
    by (simp add: accepted_def refusing_host_def the_handlers_def quiet_def)
  have e: "registered example_session = []"
    "registered (new_Session (Some (Task ''task'' JNull)) [] 3) = []"
    by (simp_all add: example_session_def new_Session_def)
  show ?thesis
    using 1 2 3
      activation_without_rollback [of quiet "new_Session (Some (Task ''task'' JNull)) [] 3"]
      activation_without_rollback [of refusing_host example_session]
      activation_without_rollback [of quiet example_session]
    by (simp add: a e)
qed

subsection \<open>The lock of the log\<close>

lemma silent_Returns [simp]: "silent (Returns a s) s"
  by (simp add: silent_def)

lemma silent_andThen:
  assumes "silent m s" and "\<And>a s1. m = Returns a s1 \<Longrightarrow> silent (f a s1) s1"
  shows "silent (andThen m f) s"
proof (cases m)
  case (Returns a s1)
  then show ?thesis
    using assms(1) assms(2) [OF Returns] by (simp add: silent_def)
next
  case (Throws e s1)
  then show ?thesis using assms(1) by (simp add: silent_def)
next
  case (Fault x s1)
  then show ?thesis using assms(1) by (simp add: silent_def)
qed

lemma writes_rows_andThen:
  assumes "writes_rows m s" and "\<And>a s1. m = Returns a s1 \<Longrightarrow> writes_rows (f a s1) s1"
  shows "writes_rows (andThen m f) s"
proof (cases m)
  case (Returns a s1)
  from assms(1) Returns obtain ls1 where
    1: "trace s1 = trace s @ map Put ls1" "locked s1 = locked s"
    by (auto simp: writes_rows_def)
  from assms(2) [OF Returns] obtain ls2 where
    2: "trace (final_state (f a s1)) = trace s1 @ map Put ls2"
       "locked (final_state (f a s1)) = locked s1"
    by (auto simp: writes_rows_def)
  have "trace (final_state (f a s1)) = trace s @ map Put (ls1 @ ls2)"
    using 1 2 by simp
  then show ?thesis
    using Returns 1 2 unfolding writes_rows_def by (simp del: map_append; blast)
next
  case (Throws e s1)
  then show ?thesis using assms(1) by (simp add: writes_rows_def)
next
  case (Fault x s1)
  then show ?thesis using assms(1) by (simp add: writes_rows_def)
qed

lemma writes_rows_put: "writes_rows (put C l s) s"
proof (cases "put_raises C l")
  case True
  have "trace s = trace s @ map Put []" by simp
  then show ?thesis
    using True unfolding writes_rows_def put_def by (simp del: append_Nil2 list.map; blast)
next
  case False
  have "trace s @ [Put l] = trace s @ map Put [l]" by simp
  then show ?thesis
    using False unfolding writes_rows_def put_def log_def
    by (simp del: list.map; blast)
qed

lemma writes_rows_silent: "silent m s \<Longrightarrow> writes_rows m s"
proof -
  assume "silent m s"
  then have "trace (final_state m) = trace s @ map Put []" "locked (final_state m) = locked s"
    by (simp_all add: silent_def)
  then show ?thesis
    unfolding writes_rows_def by blast
qed

lemma silent_map_index: "silent (map_index k s) s"
  by (simp add: map_index_def silent_def split: option.splits)

lemma silent_timer_read: "silent (timer_read p s) s"
  by (simp add: timer_read_def deref_def silent_def split: option.splits)

lemma writes_rows_put_row: "writes_rows (put_row C it s) s"
  unfolding put_row_def
  by (intro writes_rows_andThen writes_rows_silent silent_map_index silent_timer_read
      writes_rows_put)

lemma writes_rows_put_rows: "writes_rows (put_rows C its s) s"
proof (induction its arbitrary: s)
  case Nil
  then show ?case by (simp add: writes_rows_silent)
next
  case (Cons it its)
  have "put_rows C (it # its) s = andThen (put_row C it s) (\<lambda>u s'. put_rows C its s')"
    by (cases "put_row C it s") simp_all
  then show ?case
    using writes_rows_andThen [OF writes_rows_put_row, of C it s "\<lambda>u s'. put_rows C its s'"]
      Cons.IH by simp
qed

lemma writes_rows_put_summary: "writes_rows (put_summary C s) s"
proof (cases "m_par s")
  case None
  then show ?thesis
    by (simp add: put_summary_def writes_rows_silent silent_def)
next
  case (Some par)
  then show ?thesis
    unfolding put_summary_def
    by (simp, intro writes_rows_andThen writes_rows_silent silent_timer_read writes_rows_put)
qed

lemma writes_rows_report_lines: "writes_rows (report_lines C s) s"
  unfolding report_lines_def
  by (intro writes_rows_andThen writes_rows_put writes_rows_put_rows writes_rows_put_summary)

lemma silent_unregist_through: "silent (unregist_through r nm h s) s"
  by (cases r) (simp_all add: unregist_through_def unregist_def silent_def)

lemma silent_unregist_handlers: "silent (unregist_handlers s) s"
  unfolding unregist_handlers_def
  by (intro silent_andThen silent_unregist_through)

lemma silent_delete_timer: "silent (delete_timer p s) s"
  by (simp add: delete_timer_def silent_def split: option.splits)

lemma silent_delete_timers: "silent (delete_timers al s) s"
proof (induction al arbitrary: s)
  case Nil
  then show ?case by simp
next
  case (Cons it al)
  have "delete_timers (it # al) s =
          andThen (delete_timer (snd it) s) (\<lambda>u s'. delete_timers al s')"
    by (cases "delete_timer (snd it) s") simp_all
  then show ?case
    using silent_andThen [OF silent_delete_timer, of "snd it" s "\<lambda>u s'. delete_timers al s'"]
      Cons.IH by simp
qed

lemma silent_release_timers: "silent (release_timers s) s"
  unfolding release_timers_def
  by (intro silent_andThen silent_delete_timer silent_delete_timers)

text \<open>
  Claim C7 says that the lock is released on every exit path of deactivation, also when
  writing the report fails. The source calls \<open>lock\<close> and \<open>unlock\<close> as two statements,
  without a scope: when the insertion of the closing line raises, \<open>finalize\<close> ends with
  that error and the lock is held.
\<close>

theorem lock_counterexample:
  "ending (finalize broken_stream example_active) = Threw StreamFailure \<and>
   locked (final_state (finalize broken_stream example_active))"
  by (simp add: broken_stream_def finalize_defs pointer_defs timer_defs example_defs)

text \<open>
  Claim C7, amended. Whatever \<open>finalize\<close> meets, what it adds to the log is a beginning
  of: \<open>lock\<close>, the lines of the report, \<open>unlock\<close>, the closing message. So the lock is
  taken before the first line of the report and held for the whole of it: nothing but
  lines of the report stands between \<open>lock\<close> and \<open>unlock\<close>, and every line stands
  there. When \<open>finalize\<close> returns, all of it was written and the lock is free. The
  release is not scoped: when an insertion into the stream raises, \<open>finalize\<close> ends
  after the lines written so far, with the lock held.
\<close>

theorem lock_around_report:
  "\<exists>ls.
     (trace (final_state (finalize C s)) = trace s \<and>
        locked (final_state (finalize C s)) = locked s
      \<or> trace (final_state (finalize C s)) = trace s @ Lock # map Put ls \<and>
        locked (final_state (finalize C s))
      \<or> trace (final_state (finalize C s)) = trace s @ Lock # map Put ls @ [Unlock] \<and>
        \<not> locked (final_state (finalize C s))
      \<or> trace (final_state (finalize C s)) =
          trace s @ Lock # map Put ls @ [Unlock, Info ''finalized successfully''] \<and>
        \<not> locked (final_state (finalize C s))) \<and>
     (ending (finalize C s) = Returned \<longrightarrow>
        trace (final_state (finalize C s)) =
          trace s @ Lock # map Put ls @ [Unlock, Info ''finalized successfully''] \<and>
        \<not> locked (final_state (finalize C s))) \<and>
     (ending (finalize C s) = Threw StreamFailure \<longrightarrow>
        trace (final_state (finalize C s)) = trace s @ Lock # map Put ls \<and>
        locked (final_state (finalize C s)))"
proof (cases "unregist_handlers s")
  case (Returns u s1)
  have t1: "trace s1 = trace s"
    using silent_unregist_handlers [of s] Returns by (simp add: silent_def)
  let ?s3 = "s1\<lparr>m_beginEvtHdl := delete_hdl (m_beginEvtHdl s1),
                 m_endEvtHdl := delete_hdl (m_endEvtHdl s1),
                 m_beginAlgHdl := delete_hdl (m_beginAlgHdl s1),
                 m_endAlgHdl := delete_hdl (m_endAlgHdl s1),
                 locked := True, trace := trace s1 @ [Lock]\<rparr>"
  let ?rest = "\<lambda>(u::unit) s. andThen (unlock s) (\<lambda>_ s.
     andThen (release_timers s) (\<lambda>_ s.
     andThen (log (Info ''finalized successfully'') s) (\<lambda>_ s.
     Returns True s)))"
  have f: "finalize C s = andThen (report_lines C ?s3) ?rest"
    using Returns by (simp add: finalize_def delete_handlers_def lock_def)
  from writes_rows_report_lines [of C ?s3] obtain ls where
    w: "trace (final_state (report_lines C ?s3)) = trace s @ Lock # map Put ls"
       "locked (final_state (report_lines C ?s3))"
    using t1 by (auto simp: writes_rows_def)
  show ?thesis
  proof (cases "report_lines C ?s3")
    case r: (Returns v s4)
    let ?s5 = "s4\<lparr>locked := False, trace := trace s4 @ [Unlock]\<rparr>"
    have t5: "trace ?s5 = trace s @ Lock # map Put ls @ [Unlock]"
      using w r by simp
    have g: "finalize C s = andThen (release_timers ?s5) (\<lambda>_ s.
        andThen (log (Info ''finalized successfully'') s) (\<lambda>_ s. Returns True s))"
      using f r by (simp add: unlock_def)
    have q: "silent (release_timers ?s5) ?s5"
      by (rule silent_release_timers)
    show ?thesis
    proof (cases "release_timers ?s5")
      case (Returns x s6)
      then have "trace s6 = trace ?s5" "\<not> locked s6"
        using q by (simp_all add: silent_def)
      then have "trace (final_state (finalize C s)) =
            trace s @ Lock # map Put ls @ [Unlock, Info ''finalized successfully'']"
          "\<not> locked (final_state (finalize C s))" "ending (finalize C s) = Returned"
        using g Returns t5 by (simp_all add: log_def)
      then show ?thesis
        by (intro exI [of _ ls]) simp
    next
      case (Throws e s6)
      then have False using q by (simp add: silent_def)
      then show ?thesis ..
    next
      case (Fault x s6)
      then have "trace s6 = trace s @ Lock # map Put ls @ [Unlock]" "\<not> locked s6"
        "ending (finalize C s) = Faulted x" "final_state (finalize C s) = s6"
        using q g t5 by (simp_all add: silent_def)
      then show ?thesis
        by (intro exI [of _ ls]) simp
    qed
  next
    case (Throws e s4)
    then have "final_state (finalize C s) = s4" "trace s4 = trace s @ Lock # map Put ls"
      "locked s4" "ending (finalize C s) = Threw e"
      using f w by simp_all
    then show ?thesis
      by (intro exI [of _ ls]) simp
  next
    case (Fault x s4)
    then have "final_state (finalize C s) = s4" "trace s4 = trace s @ Lock # map Put ls"
      "locked s4" "ending (finalize C s) = Faulted x"
      using f w by simp_all
    then show ?thesis
      by (intro exI [of _ ls]) simp
  qed
next
  case (Throws e s1)
  then have False
    using silent_unregist_handlers [of s] by (simp add: silent_def)
  then show ?thesis ..
next
  case (Fault x s1)
  then have "final_state (finalize C s) = s1" "trace s1 = trace s" "locked s1 = locked s"
    "ending (finalize C s) = Faulted x"
    using silent_unregist_handlers [of s] by (simp_all add: silent_def finalize_def)
  then show ?thesis
    by simp
qed

text \<open>The scenario with a stream that works, and with one that fails at the closing line.\<close>

theorem lock_around_report_witness:
  "ending (finalize quiet example_active) = Returned \<and>
   \<not> locked (final_state (finalize quiet example_active)) \<and>
   trace (final_state (finalize quiet example_active)) =
     trace example_active @
     Lock # map Put [Banner, Header, Row ''trackFit'' 0 0 0 0, SumRow ''task'' 0 0 0 0, Closing] @
     [Unlock, Info ''finalized successfully''] \<and>
   ending (finalize broken_stream example_active) = Threw StreamFailure \<and>
   locked (final_state (finalize broken_stream example_active)) \<and>
   trace (final_state (finalize broken_stream example_active)) =
     trace example_active @
     Lock # map Put [Banner, Header, Row ''trackFit'' 0 0 0 0, SumRow ''task'' 0 0 0 0]"
proof -
  have 1: "ending (finalize quiet example_active) = Returned"
    "trace (final_state (finalize quiet example_active)) =
     trace example_active @
     Lock # map Put [Banner, Header, Row ''trackFit'' 0 0 0 0, SumRow ''task'' 0 0 0 0, Closing] @
     [Unlock, Info ''finalized successfully'']"
    by (simp_all add: finalize_defs pointer_defs timer_defs example_defs)
  have 2: "ending (finalize broken_stream example_active) = Threw StreamFailure"
    "trace (final_state (finalize broken_stream example_active)) =
     trace example_active @
     Lock # map Put [Banner, Header, Row ''trackFit'' 0 0 0 0, SumRow ''task'' 0 0 0 0]"
    by (simp_all add: broken_stream_def finalize_defs pointer_defs timer_defs example_defs)
  from lock_around_report [of quiet example_active] 1(1)
  have 3: "\<not> locked (final_state (finalize quiet example_active))"
    by auto
  from lock_around_report [of broken_stream example_active] 2(1)
  have 4: "locked (final_state (finalize broken_stream example_active))"
    by auto
  show ?thesis
    using 1 2 3 4 by simp
qed

subsection \<open>What the handlers leave alone\<close>

lemma same_members_refl [simp]: "same_members s s"
  by (simp add: same_members_def)


lemma same_members_trace [simp]: "same_members s (s\<lparr>trace := x\<rparr>)"
  by (simp add: same_members_def)















subsection \<open>Activation makes a session ready\<close>










subsection \<open>The report of a ready session\<close>



lemma timer_of_updates [simp]:
  "timer_of (trace_update f s) = timer_of s"
  "timer_of (locked_update g s) = timer_of s"
  "timer_of (registered_update r s) = timer_of s"
  "timer_of (m_beginEvtHdl_update h1 s) = timer_of s"
  "timer_of (m_endEvtHdl_update h2 s) = timer_of s"
  "timer_of (m_beginAlgHdl_update h3 s) = timer_of s"
  "timer_of (m_endAlgHdl_update h4 s) = timer_of s"
  by (rule ext, simp add: timer_of_def split: option.splits)+

lemma evt_timer_of_updates [simp]:
  "evt_timer_of (trace_update f s) = evt_timer_of s"
  "evt_timer_of (locked_update g s) = evt_timer_of s"
  "evt_timer_of (registered_update r s) = evt_timer_of s"
  "evt_timer_of (m_beginEvtHdl_update h1 s) = evt_timer_of s"
  "evt_timer_of (m_endEvtHdl_update h2 s) = evt_timer_of s"
  "evt_timer_of (m_beginAlgHdl_update h3 s) = evt_timer_of s"
  "evt_timer_of (m_endAlgHdl_update h4 s) = evt_timer_of s"
  by (simp_all add: evt_timer_of_def split: option.splits)















end
